theory Spec2Isabelle
  imports Main
begin

section \<open>Data model (package models)\<close>

text \<open>
  A \<open>time.Time\<close> is modelled as a count of nanoseconds on one clock; a \<open>time.Duration\<close> is
  an int64 count of nanoseconds. \<open>Time.Sub\<close> saturates at the ends of the int64 range, as the
  Go library documents.
\<close>

type_synonym time = int
type_synonym Duration = int

definition minDuration :: Duration where
  "minDuration = - (2 ^ 63)"

definition maxDuration :: Duration where
  "maxDuration = 2 ^ 63 - 1"

definition time_Sub :: "time \<Rightarrow> time \<Rightarrow> Duration" where
  "time_Sub t u =
     (if t - u < minDuration then minDuration
      else if maxDuration < t - u then maxDuration
      else t - u)"

definition time_After :: "time \<Rightarrow> time \<Rightarrow> bool" where
  "time_After t u = (u < t)"

definition time_Equal :: "time \<Rightarrow> time \<Rightarrow> bool" where
  "time_Equal t u = (t = u)"

type_synonym NotificationChannel = string

definition ChannelSlack :: NotificationChannel where
  "ChannelSlack = ''slack''"

definition ChannelEmail :: NotificationChannel where
  "ChannelEmail = ''email''"

definition ChannelMessage :: NotificationChannel where
  "ChannelMessage = ''message''"

text \<open>The struct \<open>Notification\<close>; a nil \<open>*time.Time\<close> is \<open>None\<close>.\<close>

record Notification =
  ID :: string
  Title :: string
  Content :: string
  Channel :: NotificationChannel
  Recipients :: "string list"
  ScheduledAt :: "time option"
  CreatedAt :: time
  SentAt :: "time option"

section \<open>Senders and the factory (notification\_service.go)\<close>

text \<open>
  What the program writes to standard output, one constructor for each \<open>Printf\<close> of the two
  service files with the arguments it formats: the sender's line with its bracketed tag, the
  scheduler's line for a failed \<open>Send\<close>, and the scheduler's line for an admission.
\<close>

datatype printed =
    PrintfSending string "string list" string string
  | PrintfErrorSending string
  | PrintfScheduled time

text \<open>
  The interface \<open>NotificationService\<close> has three implementations in the repository. The
  interface is open, so a fourth constructor stands for any other implementation, given by
  the error (if any) that its \<open>Send\<close> returns for a notification.
\<close>

datatype NotificationService =
    SlackNotificationService
  | EmailNotificationService
  | MessageNotificationService
  | ForeignNotificationService "Notification \<Rightarrow> string option"

text \<open>\<open>Send\<close> gives the lines printed and the error returned (\<open>None\<close> is nil).\<close>

fun Send :: "NotificationService \<Rightarrow> Notification \<Rightarrow> printed list \<times> string option" where
  "Send SlackNotificationService n =
     ([PrintfSending ''SLACK'' (Recipients n) (Title n) (Content n)], None)"
| "Send EmailNotificationService n =
     ([PrintfSending ''EMAIL'' (Recipients n) (Title n) (Content n)], None)"
| "Send MessageNotificationService n =
     ([PrintfSending ''MESSAGE'' (Recipients n) (Title n) (Content n)], None)"
| "Send (ForeignNotificationService f) n = ([], f n)"

datatype error =
    UnsupportedChannel NotificationChannel
  | MissingScheduleTime
  | PastScheduleTime
  | FailedToSchedule string

text \<open>The text each error carries in the source (\<open>fmt.Errorf\<close>).\<close>

fun error_message :: "error \<Rightarrow> string" where
  "error_message (UnsupportedChannel c) = ''unsupported notification channel: '' @ c"
| "error_message MissingScheduleTime = ''scheduled time is required''"
| "error_message PastScheduleTime = ''scheduled time must be in the future''"
| "error_message (FailedToSchedule e) = ''failed to schedule notification: '' @ e"

record NotificationServiceFactory =
  services :: "NotificationChannel \<rightharpoonup> NotificationService"

definition NewNotificationServiceFactory :: NotificationServiceFactory where
  "NewNotificationServiceFactory =
     \<lparr>services = [ChannelSlack \<mapsto> SlackNotificationService,
                  ChannelEmail \<mapsto> EmailNotificationService,
                  ChannelMessage \<mapsto> MessageNotificationService]\<rparr>"

text \<open>
  \<open>GetService\<close> returns the pair the Go function returns (service, error), where \<open>None\<close> is
  nil, together with the factory as the call leaves it.
\<close>

definition GetService ::
  "NotificationServiceFactory \<Rightarrow> NotificationChannel \<Rightarrow>
     (NotificationService option \<times> error option) \<times> NotificationServiceFactory" where
  "GetService f channel =
     (case services f channel of
        None \<Rightarrow> ((None, Some (UnsupportedChannel channel)), f)
      | Some service \<Rightarrow> ((Some service, None), f))"

section \<open>The cron library as the scheduler uses it\<close>

text \<open>
  \<open>github.com/robfig/cron/v3\<close> is an external library. The model keeps what the scheduler
  relies on: \<open>AddFunc\<close> appends an entry under the next entry id (the counter starts at 0 and
  is incremented before use), \<open>Remove\<close> deletes the entry with the given id, \<open>Start\<close> and
  \<open>Stop\<close> switch the running flag and leave the entries alone. Every function the scheduler
  registers is the same closure over a notification pointer, so an entry is an entry id with
  that pointer. Of the schedule specs the library parses, the model knows the one the
  repository passes; any other is answered with the parser's error.
\<close>

type_synonym addr = nat
type_synonym EntryID = int

record Cron =
  entries :: "(EntryID \<times> addr) list"
  nextID :: EntryID
  running :: bool

definition cron_New :: Cron where
  "cron_New = \<lparr>entries = [], nextID = 0, running = False\<rparr>"

definition AddFunc :: "string \<Rightarrow> addr \<Rightarrow> Cron \<Rightarrow> (EntryID \<times> string option) \<times> Cron" where
  "AddFunc spec p c =
     (if spec = ''@every 1s''
      then ((nextID c + 1, None),
            c\<lparr>nextID := nextID c + 1, entries := entries c @ [(nextID c + 1, p)]\<rparr>)
      else ((0, Some (''unrecognized descriptor: '' @ spec)), c))"

definition Remove :: "EntryID \<Rightarrow> Cron \<Rightarrow> Cron" where
  "Remove i c = c\<lparr>entries := filter (\<lambda>e. fst e \<noteq> i) (entries c)\<rparr>"

definition cron_Start :: "Cron \<Rightarrow> Cron" where
  "cron_Start c = c\<lparr>running := True\<rparr>"

definition cron_Stop :: "Cron \<Rightarrow> Cron" where
  "cron_Stop c = c\<lparr>running := False\<rparr>"

section \<open>The scheduler (scheduler\_service.go)\<close>

text \<open>
  The struct \<open>SchedulerService\<close> (the mutex is left out: the steps of the model are the
  pieces of code that the lock or a single goroutine keeps together), extended with the part
  of the process the scheduler reads and writes: the notifications behind the pointers it
  holds, standard output, a log of the calls of \<open>Send\<close> (time, sender, pointer passed),
  whether a goroutine has panicked, and the calls of \<open>Send\<close> that have been made and have
  not returned yet, each with the error it is going to return.
\<close>

record SchedulerService =
  cron :: Cron
  notificationService :: NotificationService
  jobs :: "string \<rightharpoonup> EntryID"

record machine = SchedulerService +
  heap :: "addr \<Rightarrow> Notification"
  stdout :: "printed list"
  sendLog :: "(time \<times> NotificationService \<times> addr) list"
  panicked :: bool
  inflight :: "(addr \<times> string option) list"

definition NewSchedulerService ::
  "NotificationService \<Rightarrow> (addr \<Rightarrow> Notification) \<Rightarrow> machine" where
  "NewSchedulerService service h =
     \<lparr>cron = cron_New, notificationService = service, jobs = Map.empty,
      heap = h, stdout = [], sendLog = [], panicked = False, inflight = []\<rparr>"

definition Start :: "machine \<Rightarrow> machine" where
  "Start s = s\<lparr>cron := cron_Start (cron s)\<rparr>"

definition Stop :: "machine \<Rightarrow> machine" where
  "Stop s = s\<lparr>cron := cron_Stop (cron s)\<rparr>"

text \<open>
  The closure \<open>job\<close> of \<open>ScheduleNotification\<close> for the notification behind \<open>p\<close>, run
  from its first line to its last with nothing in between (\<open>Send\<close> returns at once): call
  \<open>Send\<close>, print its error if there is one, then look the notification's id up in \<open>jobs\<close>
  and, if it is there, remove the cron entry stored under it and delete the key.
  \<open>now\<close> is only written to the log.
\<close>

definition job :: "addr \<Rightarrow> time \<Rightarrow> machine \<Rightarrow> machine" where
  "job p now s =
     (let notification = heap s p;
          (out, err) = Send (notificationService s) notification;
          s1 = s\<lparr>stdout := stdout s @ out,
                 sendLog := sendLog s @ [(now, notificationService s, p)]\<rparr>;
          s2 = (case err of
                  None \<Rightarrow> s1
                | Some e \<Rightarrow> s1\<lparr>stdout := stdout s1 @ [PrintfErrorSending e]\<rparr>)
      in case jobs s2 (ID notification) of
           None \<Rightarrow> s2
         | Some entryID \<Rightarrow>
             s2\<lparr>cron := Remove entryID (cron s2),
                jobs := (jobs s2)(ID notification := None)\<rparr>)"

text \<open>
  The function registered with \<open>AddFunc\<close>: it reads the clock and runs \<open>job\<close> when the time
  read is after or equal to the scheduled time. Dereferencing a nil \<open>ScheduledAt\<close> panics.
\<close>

definition entry_func :: "addr \<Rightarrow> time \<Rightarrow> machine \<Rightarrow> machine" where
  "entry_func p now s =
     (case ScheduledAt (heap s p) of
        None \<Rightarrow> s\<lparr>panicked := True\<rparr>
      | Some at \<Rightarrow>
          if time_After now at \<or> time_Equal now at then job p now s else s)"

text \<open>
  One wake of the cron loop at time \<open>now\<close> in which every \<open>Send\<close> returns at once: when the
  cron is running, the function of every entry present at the wake is run to its end, one
  after the other in the order of the entries (an entry removed by an earlier function of
  the same wake has already been started). All closures of one wake read the same time.
\<close>

definition wake :: "time \<Rightarrow> machine \<Rightarrow> machine" where
  "wake now s =
     (if running (cron s) \<and> \<not> panicked s
      then fold (\<lambda>e. entry_func (snd e) now) (entries (cron s)) s
      else s)"

text \<open>
  The same closure in the two pieces that other code can come between. \<open>Send\<close> is called in
  the goroutine of the entry and outside the lock, and the entry stays in the cron until the
  locked part after \<open>Send\<close> has run; the cron starts the function of an entry at every wake,
  whether an earlier run of it has ended or not. \<open>job_call\<close> is the call of \<open>Send\<close>
  (logged, with the sender's output), which stays in flight; \<open>job_return\<close> is what the
  closure does when the \<open>k\<close>-th call in flight returns: print the error if there is one,
  then the locked lookup, removal and deletion. \<open>entry_call\<close> and \<open>tick\<close> are the registered
  function and the wake up to the calls of \<open>Send\<close>.
\<close>

definition job_call :: "addr \<Rightarrow> time \<Rightarrow> machine \<Rightarrow> machine" where
  "job_call p now s =
     (let notification = heap s p;
          (out, err) = Send (notificationService s) notification
      in s\<lparr>stdout := stdout s @ out,
            sendLog := sendLog s @ [(now, notificationService s, p)],
            inflight := inflight s @ [(p, err)]\<rparr>)"

definition job_return :: "nat \<Rightarrow> machine \<Rightarrow> machine" where
  "job_return k s =
     (if k < length (inflight s)
      then
        (let (p, err) = inflight s ! k;
             notification = heap s p;
             s1 = s\<lparr>inflight := take k (inflight s) @ drop (Suc k) (inflight s)\<rparr>;
             s2 = (case err of
                     None \<Rightarrow> s1
                   | Some e \<Rightarrow> s1\<lparr>stdout := stdout s1 @ [PrintfErrorSending e]\<rparr>)
         in case jobs s2 (ID notification) of
              None \<Rightarrow> s2
            | Some entryID \<Rightarrow>
                s2\<lparr>cron := Remove entryID (cron s2),
                   jobs := (jobs s2)(ID notification := None)\<rparr>)
      else s)"

definition entry_call :: "addr \<Rightarrow> time \<Rightarrow> machine \<Rightarrow> machine" where
  "entry_call p now s =
     (case ScheduledAt (heap s p) of
        None \<Rightarrow> s\<lparr>panicked := True\<rparr>
      | Some at \<Rightarrow>
          if time_After now at \<or> time_Equal now at then job_call p now s else s)"

definition tick :: "time \<Rightarrow> machine \<Rightarrow> machine" where
  "tick now s =
     (if running (cron s) \<and> \<not> panicked s
      then fold (\<lambda>e. entry_call (snd e) now) (entries (cron s)) s
      else s)"

text \<open>
  \<open>ScheduleNotification\<close> for the notification behind the (non-nil) pointer \<open>p\<close>, when the
  clock reads \<open>now\<close>; \<open>None\<close> is the nil error.
\<close>

definition ScheduleNotification :: "addr \<Rightarrow> time \<Rightarrow> machine \<Rightarrow> error option \<times> machine" where
  "ScheduleNotification p now s =
     (let notification = heap s p in
      case ScheduledAt notification of
        None \<Rightarrow> (Some MissingScheduleTime, s)
      | Some at \<Rightarrow>
          if time_Sub at now \<le> 0 then (Some PastScheduleTime, s)
          else
            (case AddFunc ''@every 1s'' p (cron s) of
               ((entryID, Some e), c) \<Rightarrow> (Some (FailedToSchedule e), s\<lparr>cron := c\<rparr>)
             | ((entryID, None), c) \<Rightarrow>
                 (None, s\<lparr>cron := c,
                          jobs := (jobs s)(ID notification \<mapsto> entryID),
                          stdout := stdout s @ [PrintfScheduled at]\<rparr>)))"

text \<open>
  A run of the scheduler: calls from outside, wakes of the cron loop in which every \<open>Send\<close>
  returns at once (\<open>EvWake\<close>), wakes that leave their calls of \<open>Send\<close> in flight
  (\<open>EvTick\<close>) and returns of calls in flight (\<open>EvReturn\<close>), in order.
\<close>

datatype event =
    EvSchedule addr time
  | EvWake time
  | EvStart
  | EvStop
  | EvTick time
  | EvReturn nat

fun step :: "event \<Rightarrow> machine \<Rightarrow> machine" where
  "step (EvSchedule p now) s = snd (ScheduleNotification p now s)"
| "step (EvWake now) s = wake now s"
| "step EvStart s = Start s"
| "step EvStop s = Stop s"
| "step (EvTick now) s = tick now s"
| "step (EvReturn k) s = job_return k s"

definition run :: "event list \<Rightarrow> machine \<Rightarrow> machine" where
  "run evs s = fold step evs s"

text \<open>A notification as the tests of the repository build one, for the concrete runs below.\<close>

definition mk_notification ::
  "string \<Rightarrow> NotificationChannel \<Rightarrow> time option \<Rightarrow> Notification" where
  "mk_notification i c at =
     \<lparr>ID = i, Title = ''Test'', Content = ''Test content'', Channel = c,
      Recipients = [''test-user''], ScheduledAt = at, CreatedAt = 0, SentAt = None\<rparr>"

text \<open>
  The notification behind \<open>p\<close> is due at \<open>now\<close>: the test of the registered function
  (\<open>now.After(at) || now.Equal(at)\<close>), false when there is no scheduled time.
\<close>

definition due :: "machine \<Rightarrow> time \<Rightarrow> addr \<Rightarrow> bool" where
  "due s now p = (case ScheduledAt (heap s p) of None \<Rightarrow> False | Some at \<Rightarrow> at \<le> now)"

text \<open>Every call of \<open>Send\<close> in the log was made at or after the scheduled time of its notification.\<close>

definition never_early :: "machine \<Rightarrow> bool" where
  "never_early s = list_all (\<lambda>(t, service, p). due s t p) (sendLog s)"

text \<open>
  The bookkeeping is consistent when the cron entries have distinct ids, and every entry is
  the one that \<open>jobs\<close> stores under the id of its notification, has a scheduled time and
  an id that the cron has handed out. It holds for a new scheduler and is kept by every
  admission under an id that is not a key of \<open>jobs\<close> at that moment.
\<close>

definition jobs_consistent :: "machine \<Rightarrow> bool" where
  "jobs_consistent s =
     (distinct (map fst (entries (cron s))) \<and>
      list_all (\<lambda>(i, p). jobs s (ID (heap s p)) = Some i \<and>
                          ScheduledAt (heap s p) \<noteq> None \<and>
                          i \<le> nextID (cron s))
               (entries (cron s)))"

text \<open>
  Counting along a run: the calls of \<open>Send\<close> logged for a pointer, whether a pointer has a
  cron entry, the admissions of a pointer that return nil, and the condition that no
  admission that returns nil reuses an id that is a key of \<open>jobs\<close>.
\<close>

definition sends_of :: "addr \<Rightarrow> machine \<Rightarrow> nat" where
  "sends_of p s = length (filter (\<lambda>(t, service, q). q = p) (sendLog s))"

definition pending :: "addr \<Rightarrow> machine \<Rightarrow> bool" where
  "pending p s = (p \<in> set (map snd (entries (cron s))))"

fun admissions :: "addr \<Rightarrow> event list \<Rightarrow> machine \<Rightarrow> nat" where
  "admissions p [] s = 0"
| "admissions p (ev # evs) s =
     (case ev of
        EvSchedule q now \<Rightarrow>
          if q = p \<and> fst (ScheduleNotification q now s) = None then 1 else 0
      | _ \<Rightarrow> 0) + admissions p evs (step ev s)"

fun fresh_ids :: "event list \<Rightarrow> machine \<Rightarrow> bool" where
  "fresh_ids [] s = True"
| "fresh_ids (ev # evs) s =
     ((case ev of
         EvSchedule q now \<Rightarrow>
           fst (ScheduleNotification q now s) \<noteq> None \<or> jobs s (ID (heap s q)) = None
       | _ \<Rightarrow> True) \<and> fresh_ids evs (step ev s))"

text \<open>No call of \<open>Send\<close> is left in flight: the run has no \<open>EvTick\<close> and no \<open>EvReturn\<close>.\<close>

definition prompt_sends :: "event list \<Rightarrow> bool" where
  "prompt_sends evs =
     list_all (\<lambda>ev. case ev of EvTick now \<Rightarrow> False | EvReturn k \<Rightarrow> False | _ \<Rightarrow> True) evs"

text \<open>Concrete inputs for the runs below.\<close>

definition heap_email :: "addr \<Rightarrow> Notification" where
  "heap_email p = mk_notification ''2'' ChannelEmail (Some 10)"

definition heap_dup :: "addr \<Rightarrow> Notification" where
  "heap_dup p = (if p = 0 then mk_notification ''dup'' ChannelSlack (Some 10)
                 else mk_notification ''dup'' ChannelSlack (Some 20))"

definition heap_two :: "addr \<Rightarrow> Notification" where
  "heap_two p = (if p = 0 then mk_notification ''test-5'' ChannelSlack (Some 10)
                 else mk_notification ''test-6'' ChannelSlack (Some 20))"

definition failing_service :: NotificationService where
  "failing_service = ForeignNotificationService (\<lambda>n. Some ''provider down'')"

section \<open>Helper lemmas\<close>

lemma time_Sub_nonpos: "(time_Sub t u \<le> 0) = (t \<le> u)"
  by (simp add: time_Sub_def minDuration_def maxDuration_def)

lemma job_frame:
  "heap (job p now s) = heap s"
  "notificationService (job p now s) = notificationService s"
  "panicked (job p now s) = panicked s"
  "running (cron (job p now s)) = running (cron s)"
  "nextID (cron (job p now s)) = nextID (cron s)"
  "sendLog (job p now s) = sendLog s @ [(now, notificationService s, p)]"
  by (simp_all add: job_def Let_def Remove_def split: prod.splits option.splits)

lemma entry_func_frame:
  "heap (entry_func p now s) = heap s"
  "notificationService (entry_func p now s) = notificationService s"
  "running (cron (entry_func p now s)) = running (cron s)"
  "nextID (cron (entry_func p now s)) = nextID (cron s)"
  by (simp_all add: entry_func_def job_frame split: option.splits)

lemma entry_func_sendLog:
  "sendLog (entry_func p now s) =
     sendLog s @ (if due s now p then [(now, notificationService s, p)] else [])"
  by (auto simp: entry_func_def due_def job_frame time_After_def time_Equal_def
      split: option.splits)

lemma due_cong: "heap s' = heap s \<Longrightarrow> due s' = due s"
  by (rule ext)+ (simp add: due_def)

lemma fold_entry_func_frame:
  "heap (fold (\<lambda>e. entry_func (snd e) now) es s) = heap s"
  "notificationService (fold (\<lambda>e. entry_func (snd e) now) es s) = notificationService s"
  "running (cron (fold (\<lambda>e. entry_func (snd e) now) es s)) = running (cron s)"
  "nextID (cron (fold (\<lambda>e. entry_func (snd e) now) es s)) = nextID (cron s)"
  by (induction es arbitrary: s; simp add: entry_func_frame)+

lemma fold_entry_func_sendLog:
  "sendLog (fold (\<lambda>e. entry_func (snd e) now) es s) =
     sendLog s @ map (\<lambda>e. (now, notificationService s, snd e)) (filter (\<lambda>e. due s now (snd e)) es)"
proof (induction es arbitrary: s)
  case Nil
  show ?case by simp
next
  case (Cons e es)
  have d: "due (entry_func (snd e) now s) = due s"
    by (rule due_cong) (simp add: entry_func_frame)
  show ?case
    by (simp add: Cons.IH entry_func_sendLog entry_func_frame d)
qed

lemma wake_frame:
  "heap (wake now s) = heap s"
  "notificationService (wake now s) = notificationService s"
  "running (cron (wake now s)) = running (cron s)"
  "nextID (cron (wake now s)) = nextID (cron s)"
  by (simp_all add: wake_def fold_entry_func_frame)

lemma wake_sendLog:
  "sendLog (wake now s) =
     sendLog s @
     (if running (cron s) \<and> \<not> panicked s
      then map (\<lambda>e. (now, notificationService s, snd e))
             (filter (\<lambda>e. due s now (snd e)) (entries (cron s)))
      else [])"
  by (simp add: wake_def fold_entry_func_sendLog)

lemma job_call_frame:
  "heap (job_call p now s) = heap s"
  "notificationService (job_call p now s) = notificationService s"
  "panicked (job_call p now s) = panicked s"
  "cron (job_call p now s) = cron s"
  "jobs (job_call p now s) = jobs s"
  "sendLog (job_call p now s) = sendLog s @ [(now, notificationService s, p)]"
  by (simp_all add: job_call_def Let_def split: prod.splits)

lemma job_return_frame:
  "heap (job_return k s) = heap s"
  "notificationService (job_return k s) = notificationService s"
  "sendLog (job_return k s) = sendLog s"
  "panicked (job_return k s) = panicked s"
  "running (cron (job_return k s)) = running (cron s)"
  by (simp_all add: job_return_def Let_def Remove_def split: prod.splits option.splits)

text \<open>\<open>job\<close> is the call of \<open>Send\<close> followed at once by its return.\<close>

lemma job_call_return:
  "job_return (length (inflight s)) (job_call p now s) = job p now s"
  by (simp add: job_return_def job_call_def job_def Let_def split: prod.splits option.splits)

lemma entry_call_frame:
  "heap (entry_call p now s) = heap s"
  "notificationService (entry_call p now s) = notificationService s"
  "cron (entry_call p now s) = cron s"
  "jobs (entry_call p now s) = jobs s"
  by (simp_all add: entry_call_def job_call_frame split: option.splits)

lemma entry_call_sendLog:
  "sendLog (entry_call p now s) =
     sendLog s @ (if due s now p then [(now, notificationService s, p)] else [])"
  by (auto simp: entry_call_def due_def job_call_frame time_After_def time_Equal_def
      split: option.splits)

lemma fold_entry_call_frame:
  "heap (fold (\<lambda>e. entry_call (snd e) now) es s) = heap s"
  "notificationService (fold (\<lambda>e. entry_call (snd e) now) es s) = notificationService s"
  "cron (fold (\<lambda>e. entry_call (snd e) now) es s) = cron s"
  "jobs (fold (\<lambda>e. entry_call (snd e) now) es s) = jobs s"
  by (induction es arbitrary: s; simp add: entry_call_frame)+

lemma fold_entry_call_sendLog:
  "sendLog (fold (\<lambda>e. entry_call (snd e) now) es s) =
     sendLog s @ map (\<lambda>e. (now, notificationService s, snd e)) (filter (\<lambda>e. due s now (snd e)) es)"
proof (induction es arbitrary: s)
  case Nil
  show ?case by simp
next
  case (Cons e es)
  have d: "due (entry_call (snd e) now s) = due s"
    by (rule due_cong) (simp add: entry_call_frame)
  show ?case
    by (simp add: Cons.IH entry_call_sendLog entry_call_frame d)
qed

text \<open>A wake that leaves its calls in flight removes nothing: every entry is still there.\<close>

lemma tick_frame:
  "heap (tick now s) = heap s"
  "notificationService (tick now s) = notificationService s"
  "cron (tick now s) = cron s"
  "jobs (tick now s) = jobs s"
  by (simp_all add: tick_def fold_entry_call_frame)

lemma tick_sendLog:
  "sendLog (tick now s) =
     sendLog s @
     (if running (cron s) \<and> \<not> panicked s
      then map (\<lambda>e. (now, notificationService s, snd e))
             (filter (\<lambda>e. due s now (snd e)) (entries (cron s)))
      else [])"
  by (simp add: tick_def fold_entry_call_sendLog)

lemma ScheduleNotification_frame:
  "heap (snd (ScheduleNotification p now s)) = heap s"
  "notificationService (snd (ScheduleNotification p now s)) = notificationService s"
  "sendLog (snd (ScheduleNotification p now s)) = sendLog s"
  "running (cron (snd (ScheduleNotification p now s))) = running (cron s)"
  "panicked (snd (ScheduleNotification p now s)) = panicked s"
  by (simp_all add: ScheduleNotification_def AddFunc_def Let_def split: option.splits)

lemma step_frame:
  "heap (step ev s) = heap s"
  "notificationService (step ev s) = notificationService s"
  by (cases ev; simp add: ScheduleNotification_frame wake_frame tick_frame job_return_frame
        Start_def Stop_def)+

lemma run_frame:
  "heap (run evs s) = heap s"
  "notificationService (run evs s) = notificationService s"
  unfolding run_def by (induction evs arbitrary: s; simp add: step_frame)+

lemma never_early_wake: "never_early s \<Longrightarrow> never_early (wake now s)"
  by (auto simp: never_early_def wake_sendLog due_cong[OF wake_frame(1)] list_all_iff)

lemma never_early_step: "never_early s \<Longrightarrow> never_early (step ev s)"
proof (cases ev)
  case (EvSchedule p now)
  assume "never_early s"
  then show ?thesis
    by (simp add: EvSchedule never_early_def ScheduleNotification_frame
        due_cong[OF ScheduleNotification_frame(1)])
next
  case (EvWake now)
  assume "never_early s"
  then show ?thesis by (simp add: EvWake never_early_wake)
next
  case EvStart
  assume "never_early s"
  then show ?thesis by (simp add: EvStart never_early_def Start_def due_def)
next
  case EvStop
  assume "never_early s"
  then show ?thesis by (simp add: EvStop never_early_def Stop_def due_def)
next
  case (EvTick now)
  assume "never_early s"
  then show ?thesis
    by (auto simp: EvTick never_early_def tick_sendLog due_cong[OF tick_frame(1)] list_all_iff)
next
  case (EvReturn k)
  assume "never_early s"
  then show ?thesis
    by (simp add: EvReturn never_early_def job_return_frame due_cong[OF job_return_frame(1)])
qed

lemmas eval_defs = run_def wake_def entry_func_def job_def tick_def entry_call_def
  job_call_def job_return_def ScheduleNotification_def
  AddFunc_def Remove_def Start_def Stop_def cron_Start_def cron_Stop_def cron_New_def
  NewSchedulerService_def mk_notification_def time_Sub_def time_After_def time_Equal_def
  minDuration_def maxDuration_def Let_def

lemma dup_state1:
  "run [EvSchedule 0 5] (NewSchedulerService SlackNotificationService heap_dup) =
    \<lparr>cron = \<lparr>entries = [(1, 0)], nextID = 1, running = False\<rparr>,
     notificationService = SlackNotificationService, jobs = [''dup'' \<mapsto> 1],
     heap = heap_dup, stdout = [PrintfScheduled 10], sendLog = [], panicked = False,
     inflight = []\<rparr>"
  by (simp add: eval_defs heap_dup_def)

section \<open>Exactly one send for each admission while no id is reused and every send returns at once\<close>

text \<open>
  When the bookkeeping is consistent, the function of an entry that is due and runs to its
  end removes its own entry and no other, so a wake in which every \<open>Send\<close> returns at once
  sends each due notification once and leaves the others pending. Along any run in which no
  admission reuses an id that is still a key of \<open>jobs\<close> and no call of \<open>Send\<close> is left in
  flight, the sends of a pointer plus one if it is pending grow by exactly the number of its
  admissions; and such a wake of a running scheduler at or after the scheduled time of a
  pending notification sends it. Neither condition can be dropped: see the runs
  \<open>slow_send_run\<close> below and the one under C1.
\<close>

lemma jobs_consistentD:
  assumes "jobs_consistent s" and "(i, p) \<in> set (entries (cron s))"
  shows "jobs s (ID (heap s p)) = Some i"
    and "ScheduledAt (heap s p) \<noteq> None"
    and "i \<le> nextID (cron s)"
    and "distinct (map fst (entries (cron s)))"
  using assms by (auto simp: jobs_consistent_def list_all_iff)

lemma filter_own_entry:
  assumes "distinct (map fst es)" and "(i, p) \<in> set es"
  shows "filter (\<lambda>e. fst e \<noteq> i) es = filter (\<lambda>e. e \<noteq> (i, p)) es"
proof (rule filter_cong[OF refl])
  fix e assume "e \<in> set es"
  with assms show "(fst e \<noteq> i) = (e \<noteq> (i, p))"
    by (metis eq_key_imp_eq_value fst_conv prod.collapse)
qed

lemma entry_func_not_due:
  assumes "jobs_consistent s" and "(i, p) \<in> set (entries (cron s))" and "\<not> due s now p"
  shows "entry_func p now s = s"
  using assms jobs_consistentD(2)[OF assms(1,2)]
  by (auto simp: entry_func_def due_def time_After_def time_Equal_def split: option.splits)

lemma entry_func_due:
  assumes "jobs_consistent s" and "(i, p) \<in> set (entries (cron s))" and "due s now p"
  shows "entries (cron (entry_func p now s)) = filter (\<lambda>e. e \<noteq> (i, p)) (entries (cron s))"
    and "jobs (entry_func p now s) = (jobs s)(ID (heap s p) := None)"
    and "panicked (entry_func p now s) = panicked s"
proof -
  have j: "jobs s (ID (heap s p)) = Some i"
    by (rule jobs_consistentD(1)[OF assms(1,2)])
  have d: "distinct (map fst (entries (cron s)))"
    by (rule jobs_consistentD(4)[OF assms(1,2)])
  have ef: "entry_func p now s = job p now s"
    using assms(3)
    by (auto simp: entry_func_def due_def time_After_def time_Equal_def split: option.splits)
  show "entries (cron (entry_func p now s)) = filter (\<lambda>e. e \<noteq> (i, p)) (entries (cron s))"
    using j filter_own_entry[OF d assms(2)]
    by (simp add: ef job_def Let_def Remove_def split: prod.splits option.splits)
  show "jobs (entry_func p now s) = (jobs s)(ID (heap s p) := None)"
    using j by (simp add: ef job_def Let_def split: prod.splits option.splits)
  show "panicked (entry_func p now s) = panicked s"
    by (simp add: ef job_frame)
qed

lemma entry_func_consistent:
  assumes "jobs_consistent s" and "(i, p) \<in> set (entries (cron s))"
  shows "jobs_consistent (entry_func p now s)"
proof (cases "due s now p")
  case False
  then show ?thesis using assms by (simp add: entry_func_not_due)
next
  case True
  note ed = entry_func_due[OF assms True]
  have d: "distinct (map fst (entries (cron s)))"
    by (rule jobs_consistentD(4)[OF assms])
  have "jobs s (ID (heap s q)) = Some j \<and> ID (heap s q) \<noteq> ID (heap s p)"
    if "(j, q) \<in> set (entries (cron s))" "(j, q) \<noteq> (i, p)" for j q
  proof -
    have a: "jobs s (ID (heap s q)) = Some j" by (rule jobs_consistentD(1)[OF assms(1) that(1)])
    have b: "jobs s (ID (heap s p)) = Some i" by (rule jobs_consistentD(1)[OF assms])
    have "j \<noteq> i"
      using d that assms(2) by (metis eq_key_imp_eq_value)
    with a b show ?thesis by auto
  qed
  then show ?thesis
    using assms(1) d
    by (auto simp: jobs_consistent_def list_all_iff ed entry_func_frame distinct_map_filter)
qed

lemma fold_entry_func_consistent:
  assumes "jobs_consistent s" and "set es \<subseteq> set (entries (cron s))" and "distinct es"
  shows "jobs_consistent (fold (\<lambda>e. entry_func (snd e) now) es s) \<and>
         entries (cron (fold (\<lambda>e. entry_func (snd e) now) es s)) =
           filter (\<lambda>e. \<not> (e \<in> set es \<and> due s now (snd e))) (entries (cron s)) \<and>
         panicked (fold (\<lambda>e. entry_func (snd e) now) es s) = panicked s"
  using assms
proof (induction es arbitrary: s)
  case Nil
  then show ?case by simp
next
  case (Cons e es)
  obtain i p where e: "e = (i, p)" by (cases e)
  let ?s1 = "entry_func p now s"
  have mem: "(i, p) \<in> set (entries (cron s))" using Cons.prems(2) e by simp
  have c1: "jobs_consistent ?s1" by (rule entry_func_consistent[OF Cons.prems(1) mem])
  have ent1: "entries (cron ?s1) =
      filter (\<lambda>e'. \<not> (e' = (i, p) \<and> due s now p)) (entries (cron s))"
  proof (cases "due s now p")
    case True
    then show ?thesis by (simp add: entry_func_due(1)[OF Cons.prems(1) mem True])
  next
    case False
    then show ?thesis by (simp add: entry_func_not_due[OF Cons.prems(1) mem False])
  qed
  have pan1: "panicked ?s1 = panicked s"
  proof (cases "due s now p")
    case True
    then show ?thesis by (simp add: entry_func_due(3)[OF Cons.prems(1) mem True])
  next
    case False
    then show ?thesis by (simp add: entry_func_not_due[OF Cons.prems(1) mem False])
  qed
  have sub1: "set es \<subseteq> set (entries (cron ?s1))"
    using Cons.prems(2,3) e by (auto simp: ent1)
  have dist: "distinct es" using Cons.prems(3) by simp
  have d1: "due ?s1 = due s" by (rule due_cong) (simp add: entry_func_frame)
  note IH = Cons.IH[OF c1 sub1 dist]
  have "filter (\<lambda>e'. \<not> (e' \<in> set es \<and> due s now (snd e')))
          (filter (\<lambda>e'. \<not> (e' = (i, p) \<and> due s now p)) (entries (cron s))) =
        filter (\<lambda>e'. \<not> (e' \<in> set ((i, p) # es) \<and> due s now (snd e'))) (entries (cron s))"
    by (auto intro: filter_cong)
  with IH show ?case by (simp add: e ent1 d1 pan1)
qed

lemma jobs_consistent_distinct:
  assumes "jobs_consistent s"
  shows "distinct (entries (cron s))" and "distinct (map snd (entries (cron s)))"
proof -
  have d: "distinct (map fst (entries (cron s)))"
    using assms by (simp add: jobs_consistent_def)
  then show de: "distinct (entries (cron s))" by (simp add: distinct_map)
  have "inj_on snd (set (entries (cron s)))"
  proof (rule inj_onI)
    fix x y assume x: "x \<in> set (entries (cron s))" and y: "y \<in> set (entries (cron s))"
      and eq: "snd x = snd y"
    have "jobs s (ID (heap s (snd x))) = Some (fst x)"
      using jobs_consistentD(1)[OF assms, of "fst x" "snd x"] x by simp
    moreover have "jobs s (ID (heap s (snd y))) = Some (fst y)"
      using jobs_consistentD(1)[OF assms, of "fst y" "snd y"] y by simp
    ultimately have "fst x = fst y" using eq by simp
    with eq show "x = y" by (simp add: prod_eq_iff)
  qed
  with de show "distinct (map snd (entries (cron s)))" by (simp add: distinct_map)
qed

lemma wake_consistent:
  assumes "jobs_consistent s"
  shows "jobs_consistent (wake now s)"
    and "entries (cron (wake now s)) =
           (if running (cron s) \<and> \<not> panicked s
            then filter (\<lambda>e. \<not> due s now (snd e)) (entries (cron s))
            else entries (cron s))"
    and "panicked (wake now s) = panicked s"
proof -
  note f = fold_entry_func_consistent[OF assms subset_refl jobs_consistent_distinct(1)[OF assms], of now]
  show "jobs_consistent (wake now s)" using f assms by (simp add: wake_def)
  have "filter (\<lambda>e. \<not> (e \<in> set (entries (cron s)) \<and> due s now (snd e))) (entries (cron s)) =
        filter (\<lambda>e. \<not> due s now (snd e)) (entries (cron s))"
    by (auto intro: filter_cong)
  with f show "entries (cron (wake now s)) =
           (if running (cron s) \<and> \<not> panicked s
            then filter (\<lambda>e. \<not> due s now (snd e)) (entries (cron s))
            else entries (cron s))"
    by (simp add: wake_def)
  show "panicked (wake now s) = panicked s" using f by (simp add: wake_def)
qed

lemma count_due_pointer:
  assumes "distinct (map snd es)"
  shows "length (filter (\<lambda>(t, service, q). q = p)
           (map (\<lambda>e. (now, sv, snd e)) (filter (\<lambda>e. D (snd e)) es))) =
         (if p \<in> set (map snd es) \<and> D p then 1 else 0)"
  using assms by (induction es) (auto simp: image_iff)

lemma wake_owed:
  assumes "jobs_consistent s"
  shows "sends_of p (wake now s) + (if pending p (wake now s) then 1 else 0) =
         sends_of p s + (if pending p s then 1 else 0)"
proof (cases "running (cron s) \<and> \<not> panicked s")
  case False
  then show ?thesis by (auto simp: wake_def)
next
  case True
  have sl: "sends_of p (wake now s) =
      sends_of p s + (if pending p s \<and> due s now p then 1 else 0)"
    using True count_due_pointer[OF jobs_consistent_distinct(2)[OF assms], of p now
        "notificationService s" "due s now"]
    by (simp add: sends_of_def wake_sendLog pending_def)
  have pe: "pending p (wake now s) = (pending p s \<and> \<not> due s now p)"
    using True by (force simp: pending_def wake_consistent(2)[OF assms] image_iff)
  show ?thesis by (simp add: sl pe)
qed

lemma wake_fires_due:
  assumes "jobs_consistent s" and "running (cron s)" and "\<not> panicked s"
    and "pending p s" and "due s now p"
  shows "sends_of p (wake now s) = sends_of p s + 1 \<and> \<not> pending p (wake now s)"
proof -
  have sl: "sends_of p (wake now s) = sends_of p s + 1"
    using assms(2-5) count_due_pointer[OF jobs_consistent_distinct(2)[OF assms(1)], of p now
        "notificationService s" "due s now"]
    by (simp add: sends_of_def wake_sendLog pending_def)
  have "\<not> pending p (wake now s)"
    using assms(2-5) by (force simp: pending_def wake_consistent(2)[OF assms(1)] image_iff)
  with sl show ?thesis by simp
qed

lemma ScheduleNotification_cases:
  "(fst (ScheduleNotification q now s) \<noteq> None \<and> snd (ScheduleNotification q now s) = s) \<or>
   (\<exists>at. ScheduledAt (heap s q) = Some at \<and> now < at \<and>
      ScheduleNotification q now s =
        (None, s\<lparr>cron := (cron s)\<lparr>nextID := nextID (cron s) + 1,
                     entries := entries (cron s) @ [(nextID (cron s) + 1, q)]\<rparr>,
                  jobs := (jobs s)(ID (heap s q) \<mapsto> nextID (cron s) + 1),
                  stdout := stdout s @ [PrintfScheduled at]\<rparr>))"
  by (cases "ScheduledAt (heap s q)")
     (auto simp: ScheduleNotification_def AddFunc_def Let_def time_Sub_nonpos)

lemma ScheduleNotification_consistent:
  assumes "jobs_consistent s"
    and "fst (ScheduleNotification q now s) \<noteq> None \<or> jobs s (ID (heap s q)) = None"
  shows "jobs_consistent (snd (ScheduleNotification q now s))"
  using ScheduleNotification_cases[of q now s]
proof (elim disjE conjE exE)
  assume "snd (ScheduleNotification q now s) = s"
  with assms(1) show ?thesis by simp
next
  fix at
  assume at: "ScheduledAt (heap s q) = Some at"
    and sn: "ScheduleNotification q now s =
        (None, s\<lparr>cron := (cron s)\<lparr>nextID := nextID (cron s) + 1,
                     entries := entries (cron s) @ [(nextID (cron s) + 1, q)]\<rparr>,
                  jobs := (jobs s)(ID (heap s q) \<mapsto> nextID (cron s) + 1),
                  stdout := stdout s @ [PrintfScheduled at]\<rparr>)"
  have fresh: "jobs s (ID (heap s q)) = None" using assms(2) sn by simp
  have neq: "ID (heap s p) \<noteq> ID (heap s q) \<and> i \<le> nextID (cron s)"
    if "(i, p) \<in> set (entries (cron s))" for i p
    using jobs_consistentD(1,3)[OF assms(1) that] fresh by auto
  have notin: "nextID (cron s) + 1 \<notin> fst ` set (entries (cron s))"
    using neq by force
  have le: "i \<le> nextID (cron s) + 1" if "(i, p) \<in> set (entries (cron s))" for i p
    using neq[OF that] by simp
  show ?thesis
    using assms(1) at neq notin le
    by (auto simp: sn jobs_consistent_def list_all_iff)
qed

lemma ScheduleNotification_owed:
  assumes "jobs_consistent s"
    and "fst (ScheduleNotification q now s) \<noteq> None \<or> jobs s (ID (heap s q)) = None"
  shows "sends_of p (snd (ScheduleNotification q now s)) +
           (if pending p (snd (ScheduleNotification q now s)) then 1 else 0) =
         sends_of p s + (if pending p s then 1 else 0) +
           (if q = p \<and> fst (ScheduleNotification q now s) = None then 1 else 0)"
  using ScheduleNotification_cases[of q now s]
proof (elim disjE conjE exE)
  assume "fst (ScheduleNotification q now s) \<noteq> None" "snd (ScheduleNotification q now s) = s"
  then show ?thesis by simp
next
  fix at
  assume sn: "ScheduleNotification q now s =
        (None, s\<lparr>cron := (cron s)\<lparr>nextID := nextID (cron s) + 1,
                     entries := entries (cron s) @ [(nextID (cron s) + 1, q)]\<rparr>,
                  jobs := (jobs s)(ID (heap s q) \<mapsto> nextID (cron s) + 1),
                  stdout := stdout s @ [PrintfScheduled at]\<rparr>)"
  have fresh: "jobs s (ID (heap s q)) = None" using assms(2) sn by simp
  have np: "\<not> pending q s"
  proof
    assume "pending q s"
    then obtain i where "(i, q) \<in> set (entries (cron s))"
      by (auto simp: pending_def)
    from jobs_consistentD(1)[OF assms(1) this] fresh show False by simp
  qed
  show ?thesis
    using np by (auto simp: sn sends_of_def pending_def)
qed

theorem exactly_once_fresh_ids:
  assumes "jobs_consistent s" and "fresh_ids evs s" and "prompt_sends evs"
  shows "jobs_consistent (run evs s) \<and>
         panicked (run evs s) = panicked s \<and>
         sends_of p (run evs s) + (if pending p (run evs s) then 1 else 0) =
           sends_of p s + (if pending p s then 1 else 0) + admissions p evs s"
  using assms
proof (induction evs arbitrary: s)
  case Nil
  then show ?case by (simp add: run_def)
next
  case (Cons ev evs)
  have st: "jobs_consistent (step ev s) \<and> panicked (step ev s) = panicked s \<and>
        sends_of p (step ev s) + (if pending p (step ev s) then 1 else 0) =
        sends_of p s + (if pending p s then 1 else 0) +
        (case ev of
           EvSchedule q now \<Rightarrow>
             if q = p \<and> fst (ScheduleNotification q now s) = None then 1 else 0
         | _ \<Rightarrow> 0)"
  proof (cases ev)
    case (EvSchedule q now)
    with Cons.prems have fr:
      "fst (ScheduleNotification q now s) \<noteq> None \<or> jobs s (ID (heap s q)) = None"
      by simp
    show ?thesis
      using ScheduleNotification_consistent[OF Cons.prems(1) fr]
        ScheduleNotification_owed[OF Cons.prems(1) fr, of p]
      by (simp add: EvSchedule ScheduleNotification_frame)
  next
    case (EvWake now)
    show ?thesis
      using wake_consistent(1,3)[OF Cons.prems(1), of now] wake_owed[OF Cons.prems(1), of p now]
      by (simp add: EvWake)
  next
    case EvStart
    show ?thesis using Cons.prems(1)
      by (simp add: EvStart Start_def cron_Start_def jobs_consistent_def sends_of_def pending_def)
  next
    case EvStop
    show ?thesis using Cons.prems(1)
      by (simp add: EvStop Stop_def cron_Stop_def jobs_consistent_def sends_of_def pending_def)
  next
    case (EvTick now)
    with Cons.prems(3) show ?thesis by (simp add: prompt_sends_def)
  next
    case (EvReturn k)
    with Cons.prems(3) show ?thesis by (simp add: prompt_sends_def)
  qed
  have fr': "fresh_ids evs (step ev s)" using Cons.prems(2) by simp
  have pr': "prompt_sends evs" using Cons.prems(3) by (simp add: prompt_sends_def)
  from Cons.IH[OF conjunct1[OF st] fr' pr'] st show ?case
    by (simp add: run_def)
qed

lemma jobs_consistent_New: "jobs_consistent (NewSchedulerService service h)"
  by (simp add: jobs_consistent_def NewSchedulerService_def cron_New_def)

lemma exactly_once_example:
  "jobs_consistent (NewSchedulerService SlackNotificationService heap_two) \<and>
   prompt_sends [EvStart, EvSchedule 0 5, EvSchedule 1 6, EvWake 10, EvWake 11, EvWake 20, EvWake 21] \<and>
   fresh_ids [EvStart, EvSchedule 0 5, EvSchedule 1 6, EvWake 10, EvWake 11, EvWake 20, EvWake 21]
     (NewSchedulerService SlackNotificationService heap_two) \<and>
   sendLog (run [EvStart, EvSchedule 0 5, EvSchedule 1 6, EvWake 10, EvWake 11, EvWake 20, EvWake 21]
     (NewSchedulerService SlackNotificationService heap_two)) =
     [(10, SlackNotificationService, 0), (20, SlackNotificationService, 1)] \<and>
   entries (cron (run [EvStart, EvSchedule 0 5, EvSchedule 1 6, EvWake 10, EvWake 11, EvWake 20, EvWake 21]
     (NewSchedulerService SlackNotificationService heap_two))) = []"
proof -
  have a: "fresh_ids [EvStart, EvSchedule 0 5, EvSchedule 1 6, EvWake 10, EvWake 11, EvWake 20, EvWake 21]
     (NewSchedulerService SlackNotificationService heap_two)"
    by (simp add: eval_defs heap_two_def)
  have b: "sendLog (run [EvStart, EvSchedule 0 5, EvSchedule 1 6, EvWake 10, EvWake 11, EvWake 20, EvWake 21]
     (NewSchedulerService SlackNotificationService heap_two)) =
     [(10, SlackNotificationService, 0), (20, SlackNotificationService, 1)]"
    by (simp add: eval_defs heap_two_def)
  have c: "entries (cron (run [EvStart, EvSchedule 0 5, EvSchedule 1 6, EvWake 10, EvWake 11, EvWake 20, EvWake 21]
     (NewSchedulerService SlackNotificationService heap_two))) = []"
    by (simp add: eval_defs heap_two_def)
  have d: "prompt_sends [EvStart, EvSchedule 0 5, EvSchedule 1 6, EvWake 10, EvWake 11, EvWake 20, EvWake 21]"
    by (simp add: prompt_sends_def)
  from a b c d jobs_consistent_New show ?thesis by blast
qed

text \<open>
  A send that fails, for a notification with a consistent entry of its own, when \<open>job\<close> runs
  to its end: the error is printed, the notification's own entry and key are removed, it is
  no longer pending, and in any later run without reuse of ids and without sends in flight it
  is sent only as often as it is admitted again by a caller.
\<close>

lemma job_own_entry:
  assumes "jobs_consistent s" and "(i, p) \<in> set (entries (cron s))"
  shows "entries (cron (job p now s)) = filter (\<lambda>e. e \<noteq> (i, p)) (entries (cron s))"
    and "jobs (job p now s) = (jobs s)(ID (heap s p) := None)"
    and "\<not> pending p (job p now s)"
    and "jobs_consistent (job p now s)"
proof -
  obtain at where at: "ScheduledAt (heap s p) = Some at"
    using jobs_consistentD(2)[OF assms] by auto
  have du: "due s at p" by (simp add: due_def at)
  have ef: "entry_func p at s = job p at s"
    by (simp add: entry_func_def at time_Equal_def)
  have same: "cron (job p now s) = cron (job p at s) \<and> jobs (job p now s) = jobs (job p at s) \<and>
              heap (job p now s) = heap (job p at s)"
    by (simp add: job_def Let_def split: prod.splits option.splits)
  show e: "entries (cron (job p now s)) = filter (\<lambda>e. e \<noteq> (i, p)) (entries (cron s))"
    using entry_func_due(1)[OF assms du] by (simp add: ef same)
  show "jobs (job p now s) = (jobs s)(ID (heap s p) := None)"
    using entry_func_due(2)[OF assms du] by (simp add: ef same)
  have "distinct (map snd (entries (cron s)))"
    by (rule jobs_consistent_distinct(2)[OF assms(1)])
  then have "\<And>j. (j, p) \<in> set (entries (cron s)) \<Longrightarrow> j = i"
    using assms(2) by (metis eq_key_imp_eq_value distinct_map inj_onD snd_conv prod.inject)
  then show "\<not> pending p (job p now s)"
    by (auto simp: pending_def e)
  have "jobs_consistent (job p at s)"
    using entry_func_consistent[OF assms, of at] by (simp add: ef)
  then show "jobs_consistent (job p now s)"
    using same by (simp add: jobs_consistent_def)
qed

lemma send_error_terminal:
  assumes "jobs_consistent s" and "(i, p) \<in> set (entries (cron s))"
    and "Send (notificationService s) (heap s p) = (out, Some e)"
    and "fresh_ids evs (job p now s)" and "prompt_sends evs"
  shows "stdout (job p now s) = stdout s @ out @ [PrintfErrorSending e] \<and>
         entries (cron (job p now s)) = filter (\<lambda>e. e \<noteq> (i, p)) (entries (cron s)) \<and>
         jobs (job p now s) = (jobs s)(ID (heap s p) := None) \<and>
         \<not> pending p (job p now s) \<and>
         sends_of p (run evs (job p now s)) + (if pending p (run evs (job p now s)) then 1 else 0) =
           sends_of p (job p now s) + admissions p evs (job p now s)"
proof -
  have so: "stdout (job p now s) = stdout s @ out @ [PrintfErrorSending e]"
    using assms(3) by (simp add: job_def Let_def split: option.splits)
  note own = job_own_entry[OF assms(1,2), of now]
  from exactly_once_fresh_ids[OF own(4) assms(4,5), of p] own(3) so own(1,2)
  show ?thesis by simp
qed

lemma send_error_terminal_example:
  "jobs_consistent (run [EvStart, EvSchedule 0 5] (NewSchedulerService failing_service heap_two)) \<and>
   entries (cron (run [EvStart, EvSchedule 0 5] (NewSchedulerService failing_service heap_two))) = [(1, 0)] \<and>
   sendLog (run [EvStart, EvSchedule 0 5, EvWake 10, EvWake 11, EvWake 12]
      (NewSchedulerService failing_service heap_two)) = [(10, failing_service, 0)] \<and>
   stdout (run [EvStart, EvSchedule 0 5, EvWake 10, EvWake 11, EvWake 12]
      (NewSchedulerService failing_service heap_two)) =
     [PrintfScheduled 10, PrintfErrorSending ''provider down''] \<and>
   entries (cron (run [EvStart, EvSchedule 0 5, EvWake 10, EvWake 11, EvWake 12]
      (NewSchedulerService failing_service heap_two))) = []"
proof -
  have a: "jobs_consistent (run [EvStart, EvSchedule 0 5] (NewSchedulerService failing_service heap_two))"
    by (simp add: eval_defs heap_two_def jobs_consistent_def)
  have b: "entries (cron (run [EvStart, EvSchedule 0 5] (NewSchedulerService failing_service heap_two))) = [(1, 0)]"
    by (simp add: eval_defs heap_two_def)
  have c: "sendLog (run [EvStart, EvSchedule 0 5, EvWake 10, EvWake 11, EvWake 12]
      (NewSchedulerService failing_service heap_two)) = [(10, failing_service, 0)]"
    by (simp add: eval_defs heap_two_def failing_service_def)
  have d: "stdout (run [EvStart, EvSchedule 0 5, EvWake 10, EvWake 11, EvWake 12]
      (NewSchedulerService failing_service heap_two)) =
     [PrintfScheduled 10, PrintfErrorSending ''provider down'']"
    by (simp add: eval_defs heap_two_def failing_service_def)
  have e: "entries (cron (run [EvStart, EvSchedule 0 5, EvWake 10, EvWake 11, EvWake 12]
      (NewSchedulerService failing_service heap_two))) = []"
    by (simp add: eval_defs heap_two_def failing_service_def)
  from a b c d e show ?thesis by blast
qed

text \<open>
  A send that does not return before the next wakes: one notification with an id of its own,
  due at 10, on a started scheduler. The wakes at 10, 11 and 12 each call \<open>Send\<close> on it, since
  its entry is still in the cron; the first return removes the entry and the key, the other
  two find no key.
\<close>

lemma slow_send_run:
  "fresh_ids [EvStart, EvSchedule 0 5, EvTick 10, EvTick 11, EvTick 12, EvReturn 0, EvReturn 0, EvReturn 0]
     (NewSchedulerService SlackNotificationService heap_two) \<and>
   sendLog (run [EvStart, EvSchedule 0 5, EvTick 10, EvTick 11, EvTick 12, EvReturn 0, EvReturn 0, EvReturn 0]
     (NewSchedulerService SlackNotificationService heap_two)) =
     [(10, SlackNotificationService, 0), (11, SlackNotificationService, 0),
      (12, SlackNotificationService, 0)] \<and>
   entries (cron (run [EvStart, EvSchedule 0 5, EvTick 10, EvTick 11, EvTick 12, EvReturn 0]
     (NewSchedulerService SlackNotificationService heap_two))) = [] \<and>
   inflight (run [EvStart, EvSchedule 0 5, EvTick 10, EvTick 11, EvTick 12, EvReturn 0, EvReturn 0, EvReturn 0]
     (NewSchedulerService SlackNotificationService heap_two)) = []"
proof -
  have a: "fresh_ids [EvStart, EvSchedule 0 5, EvTick 10, EvTick 11, EvTick 12, EvReturn 0, EvReturn 0, EvReturn 0]
     (NewSchedulerService SlackNotificationService heap_two)"
    by (simp add: eval_defs heap_two_def)
  have b: "sendLog (run [EvStart, EvSchedule 0 5, EvTick 10, EvTick 11, EvTick 12, EvReturn 0, EvReturn 0, EvReturn 0]
     (NewSchedulerService SlackNotificationService heap_two)) =
     [(10, SlackNotificationService, 0), (11, SlackNotificationService, 0),
      (12, SlackNotificationService, 0)]"
    by (simp add: eval_defs heap_two_def)
  have c: "entries (cron (run [EvStart, EvSchedule 0 5, EvTick 10, EvTick 11, EvTick 12, EvReturn 0]
     (NewSchedulerService SlackNotificationService heap_two))) = []"
    by (simp add: eval_defs heap_two_def)
  have d: "inflight (run [EvStart, EvSchedule 0 5, EvTick 10, EvTick 11, EvTick 12, EvReturn 0, EvReturn 0, EvReturn 0]
     (NewSchedulerService SlackNotificationService heap_two)) = []"
    by (simp add: eval_defs heap_two_def)
  from a b c d show ?thesis by blast
qed

section \<open>Claims\<close>

text \<open>
  C3. When the notification's \<open>ScheduledAt\<close> is nil, \<open>ScheduleNotification\<close> returns the
  missing-schedule-time error (``scheduled time is required''), and the whole state, the
  jobs map and the cron entries included, is as before the call.
\<close>

theorem C3_missing_schedule_time:
  assumes "ScheduledAt (heap s p) = None"
  shows "ScheduleNotification p now s = (Some MissingScheduleTime, s)"
  using assms by (simp add: ScheduleNotification_def)

theorem C3_missing_schedule_time_witness:
  "ScheduledAt (heap (NewSchedulerService SlackNotificationService
       (\<lambda>_. mk_notification ''test-8'' ChannelSlack None)) 0) = None \<and>
   ScheduleNotification 0 5
     (NewSchedulerService SlackNotificationService
       (\<lambda>_. mk_notification ''test-8'' ChannelSlack None)) =
   (Some MissingScheduleTime,
    NewSchedulerService SlackNotificationService
       (\<lambda>_. mk_notification ''test-8'' ChannelSlack None))"
  using C3_missing_schedule_time
    [of "NewSchedulerService SlackNotificationService
       (\<lambda>_. mk_notification ''test-8'' ChannelSlack None)" 0 5]
  by (simp add: NewSchedulerService_def mk_notification_def)

text \<open>
  C4. When \<open>ScheduledAt\<close> is present and not strictly after the time of the call (equal to
  it included), \<open>ScheduleNotification\<close> returns the past-schedule-time error (``scheduled
  time must be in the future'') and the state is as before: no cron entry, no key in \<open>jobs\<close>.
\<close>

theorem C4_past_schedule_time:
  assumes "ScheduledAt (heap s p) = Some at" and "at \<le> now"
  shows "ScheduleNotification p now s = (Some PastScheduleTime, s)"
  using assms by (simp add: ScheduleNotification_def time_Sub_nonpos)

theorem C4_past_schedule_time_witness:
  "ScheduledAt (heap (NewSchedulerService SlackNotificationService
       (\<lambda>_. mk_notification ''test-7'' ChannelSlack (Some 5))) 0) = Some 5 \<and> (5::int) \<le> 5 \<and>
   ScheduleNotification 0 5
     (NewSchedulerService SlackNotificationService
       (\<lambda>_. mk_notification ''test-7'' ChannelSlack (Some 5))) =
   (Some PastScheduleTime,
    NewSchedulerService SlackNotificationService
       (\<lambda>_. mk_notification ''test-7'' ChannelSlack (Some 5)))"
  using C4_past_schedule_time
    [of "NewSchedulerService SlackNotificationService
       (\<lambda>_. mk_notification ''test-7'' ChannelSlack (Some 5))" 0 5 5]
  by (simp add: NewSchedulerService_def mk_notification_def)

text \<open>
  C5. On the factory that \<open>NewNotificationServiceFactory\<close> builds, \<open>GetService\<close> returns
  the Slack, Email or Message sender with a nil error for the tags slack, email and message,
  and a nil sender with the unsupported-channel error for every other tag; the factory after
  the call is the factory before it.
\<close>

theorem C5_get_service:
  "GetService NewNotificationServiceFactory channel =
     (if channel = ChannelSlack
      then ((Some SlackNotificationService, None), NewNotificationServiceFactory)
      else if channel = ChannelEmail
      then ((Some EmailNotificationService, None), NewNotificationServiceFactory)
      else if channel = ChannelMessage
      then ((Some MessageNotificationService, None), NewNotificationServiceFactory)
      else ((None, Some (UnsupportedChannel channel)), NewNotificationServiceFactory))"
  by (simp add: GetService_def NewNotificationServiceFactory_def ChannelSlack_def
      ChannelEmail_def ChannelMessage_def)

text \<open>
  C7. \<open>Stop\<close> changes nothing but the running flag of the cron: the jobs map, the cron
  entries and the entry counter, the notifications, the log of sends and the output are as
  before, and so are the calls of \<open>Send\<close> in flight; the cron is not running afterwards, and
  a wake in that state does nothing, whether its sends would return at once or not.
\<close>

theorem C7_stop_keeps_pending:
  "jobs (Stop s) = jobs s \<and> entries (cron (Stop s)) = entries (cron s) \<and>
   nextID (cron (Stop s)) = nextID (cron s) \<and>
   heap (Stop s) = heap s \<and> sendLog (Stop s) = sendLog s \<and> stdout (Stop s) = stdout s \<and>
   \<not> running (cron (Stop s)) \<and> wake now (Stop s) = Stop s \<and>
   inflight (Stop s) = inflight s \<and> tick now (Stop s) = Stop s"
  by (simp add: Stop_def cron_Stop_def wake_def tick_def)

text \<open>
  C6. Never early, as an invariant of runs: if every call of \<open>Send\<close> logged so far was made
  at or after the scheduled time of its notification, the same holds after any sequence of
  admissions, wakes (with sends that return at once or stay in flight), returns, starts and
  stops. A wake at time \<open>now\<close> calls \<open>Send\<close> only for entries whose scheduled time is at or
  before \<open>now\<close> (lemmas \<open>wake_sendLog\<close> and \<open>tick_sendLog\<close>).
\<close>

theorem C6_never_early:
  assumes "never_early s"
  shows "never_early (run evs s)"
  using assms unfolding run_def
  by (induction evs arbitrary: s) (simp_all add: never_early_step)

theorem C6_never_early_witness:
  "never_early (NewSchedulerService SlackNotificationService
         (\<lambda>_. mk_notification ''test-4'' ChannelSlack (Some 10))) \<and>
   never_early (run [EvStart, EvSchedule 0 5, EvWake 9, EvWake 10, EvWake 11]
      (NewSchedulerService SlackNotificationService
         (\<lambda>_. mk_notification ''test-4'' ChannelSlack (Some 10)))) \<and>
   sendLog (run [EvStart, EvSchedule 0 5, EvWake 9, EvWake 10, EvWake 11]
      (NewSchedulerService SlackNotificationService
         (\<lambda>_. mk_notification ''test-4'' ChannelSlack (Some 10)))) =
   [(10, SlackNotificationService, 0)]"
  using C6_never_early [of "NewSchedulerService SlackNotificationService
         (\<lambda>_. mk_notification ''test-4'' ChannelSlack (Some 10))"
         "[EvStart, EvSchedule 0 5, EvWake 9, EvWake 10, EvWake 11]"]
  by (simp add: eval_defs never_early_def)

text \<open>
  C2 (as the code has it). Dispatch does not consult the factory: every call of \<open>Send\<close> made
  in a run of a scheduler goes to the one sender the scheduler was constructed with, whatever
  the channel of the notification.
\<close>

theorem C2_sender_fixed:
  "\<forall>(t, service', p) \<in> set (sendLog (run evs (NewSchedulerService service h))).
     service' = service"
proof -
  have inv: "list_all (\<lambda>(t, service', p). service' = notificationService s) (sendLog s) \<Longrightarrow>
             list_all (\<lambda>(t, service', p). service' = notificationService s) (sendLog (step ev s))"
    for ev s
    by (cases ev)
       (auto simp: ScheduleNotification_frame wake_sendLog tick_sendLog job_return_frame
          Start_def Stop_def list_all_iff)
  have "list_all (\<lambda>(t, service', p). service' = notificationService s) (sendLog s) \<Longrightarrow>
        list_all (\<lambda>(t, service', p). service' = notificationService s) (sendLog (fold step evs s))"
    for s
  proof (induction evs arbitrary: s)
    case Nil
    then show ?case by simp
  next
    case (Cons ev evs)
    have "list_all (\<lambda>(t, service', p). service' = notificationService (step ev s))
            (sendLog (step ev s))"
      using inv[OF Cons.prems] by (simp add: step_frame)
    from Cons.IH[OF this] show ?case by (simp add: step_frame)
  qed
  from this[of "NewSchedulerService service h"] show ?thesis
    by (simp add: run_def list_all_iff NewSchedulerService_def)
qed

theorem C2_sender_fixed_witness:
  "sendLog (run [EvStart, EvSchedule 0 5, EvWake 10]
      (NewSchedulerService EmailNotificationService heap_email)) =
     [(10, EmailNotificationService, 0)]"
  using C2_sender_fixed [of "[EvStart, EvSchedule 0 5, EvWake 10]" EmailNotificationService heap_email]
  by (simp add: eval_defs heap_email_def)

text \<open>
  C2 as stated fails: a scheduler built with the Slack sender (as \<open>NewApp\<close> builds the one
  the HTTP handler uses) sends a notification of channel email through the Slack sender,
  while the factory resolves that channel to the Email sender.
\<close>

theorem C2_registry_counterexample:
  "sendLog (run [EvStart, EvSchedule 0 5, EvWake 10]
      (NewSchedulerService SlackNotificationService heap_email)) =
     [(10, SlackNotificationService, 0)] \<and>
   Channel (heap_email 0) = ChannelEmail \<and>
   fst (GetService NewNotificationServiceFactory (Channel (heap_email 0))) =
     (Some EmailNotificationService, None) \<and>
   EmailNotificationService \<noteq> SlackNotificationService"
  by (simp add: eval_defs heap_email_def GetService_def NewNotificationServiceFactory_def
      ChannelSlack_def ChannelEmail_def ChannelMessage_def)

text \<open>
  C8 (as the code has it). Neither \<open>job\<close> (in one piece or in its two), nor a wake, nor any
  run of the scheduler writes to a notification: every field, \<open>SentAt\<close> included, keeps the
  value the caller gave it.
\<close>

theorem C8_sentAt_untouched:
  "SentAt (heap (job p now s) q) = SentAt (heap s q) \<and>
   SentAt (heap (wake now s) q) = SentAt (heap s q) \<and>
   SentAt (heap (run evs s) q) = SentAt (heap s q) \<and>
   heap (run evs s) = heap s \<and>
   SentAt (heap (job_call p now s) q) = SentAt (heap s q) \<and>
   SentAt (heap (job_return k s) q) = SentAt (heap s q) \<and>
   SentAt (heap (tick now s) q) = SentAt (heap s q)"
  by (simp add: run_frame wake_frame job_frame job_call_frame job_return_frame tick_frame)

text \<open>
  C8 as stated fails: a notification with no \<open>SentAt\<close> is admitted and fired (one call of
  \<open>Send\<close> at time 10), and its \<open>SentAt\<close> is still absent afterwards.
\<close>

theorem C8_sentAt_counterexample:
  "sendLog (run [EvStart, EvSchedule 0 5, EvWake 10]
      (NewSchedulerService EmailNotificationService heap_email)) =
     [(10, EmailNotificationService, 0)] \<and>
   SentAt (heap_email 0) = None \<and>
   SentAt (heap (run [EvStart, EvSchedule 0 5, EvWake 10]
      (NewSchedulerService EmailNotificationService heap_email)) 0) = None"
  by (simp add: eval_defs heap_email_def)


text \<open>
  C10. A notification whose id is already a key of \<open>jobs\<close> (under entry \<open>old\<close>, held by the
  pending notification behind \<open>q\<close>) is admitted all the same: \<open>ScheduleNotification\<close>
  returns nil, appends a new cron entry and overwrites the key with the new entry id, so that
  no key of \<open>jobs\<close> leads to \<open>old\<close> any more. When the first notification then fires, \<open>job\<close>
  removes the entry stored in the map, which is the second notification's, and deletes the
  key; its own entry \<open>old\<close> stays in the cron.
\<close>

theorem C10_duplicate_id_overwrites:
  assumes "ScheduledAt (heap s p) = Some at" and "now < at"
    and "jobs s (ID (heap s p)) = Some old"
    and "\<forall>k. jobs s k = Some old \<longrightarrow> k = ID (heap s p)"
    and "(old, q) \<in> set (entries (cron s))"
    and "ID (heap s q) = ID (heap s p)"
    and "old \<le> nextID (cron s)"
  shows "fst (ScheduleNotification p now s) = None \<and>
         jobs (snd (ScheduleNotification p now s)) =
           (jobs s)(ID (heap s p) \<mapsto> nextID (cron s) + 1) \<and>
         entries (cron (snd (ScheduleNotification p now s))) =
           entries (cron s) @ [(nextID (cron s) + 1, p)] \<and>
         (\<forall>k. jobs (snd (ScheduleNotification p now s)) k \<noteq> Some old) \<and>
         cron (job q t (snd (ScheduleNotification p now s))) =
           Remove (nextID (cron s) + 1) (cron (snd (ScheduleNotification p now s))) \<and>
         (old, q) \<in> set (entries (cron (job q t (snd (ScheduleNotification p now s))))) \<and>
         (nextID (cron s) + 1, p) \<notin> set (entries (cron (job q t (snd (ScheduleNotification p now s))))) \<and>
         jobs (job q t (snd (ScheduleNotification p now s))) = (jobs s)(ID (heap s p) := None)"
proof -
  let ?new = "nextID (cron s) + 1"
  let ?s' = "s\<lparr>cron := (cron s)\<lparr>nextID := ?new, entries := entries (cron s) @ [(?new, p)]\<rparr>,
               jobs := (jobs s)(ID (heap s p) \<mapsto> ?new),
               stdout := stdout s @ [PrintfScheduled at]\<rparr>"
  have tn: "\<not> time_Sub at now \<le> 0"
    using assms(2) by (simp add: time_Sub_nonpos)
  have sn: "ScheduleNotification p now s = (None, ?s')"
    using assms(1) tn by (simp add: ScheduleNotification_def AddFunc_def Let_def)
  have unreach: "\<forall>k. ((jobs s)(ID (heap s p) \<mapsto> ?new)) k \<noteq> Some old"
    using assms(4,7) by auto
  have lk: "jobs ?s' (ID (heap ?s' q)) = Some ?new"
    using assms(6) by simp
  have jb: "job q t ?s' =
      (let (out, err) = Send (notificationService s) (heap s q);
           s1 = ?s'\<lparr>stdout := stdout ?s' @ out,
                 sendLog := sendLog s @ [(t, notificationService s, q)]\<rparr>;
           s2 = (case err of None \<Rightarrow> s1
                | Some e \<Rightarrow> s1\<lparr>stdout := stdout s1 @ [PrintfErrorSending e]\<rparr>)
       in s2\<lparr>cron := Remove ?new (cron s2), jobs := (jobs s2)(ID (heap s q) := None)\<rparr>)"
    using assms(6) by (simp add: job_def Let_def split: prod.splits option.splits)
  have c: "cron (job q t ?s') = Remove ?new (cron ?s')"
    by (simp add: jb Let_def Remove_def split: prod.splits option.splits)
  have j: "jobs (job q t ?s') = (jobs s)(ID (heap s p) := None)"
    using assms(6) by (simp add: jb Let_def split: prod.splits option.splits)
  have e1: "(old, q) \<in> set (entries (Remove ?new (cron ?s')))"
    using assms(5,7) by (simp add: Remove_def)
  have e2: "(?new, p) \<notin> set (entries (Remove ?new (cron ?s')))"
    by (simp add: Remove_def)
  show ?thesis
    unfolding sn fst_conv snd_conv c j
    using unreach e1 e2 by simp
qed

theorem C10_duplicate_id_overwrites_witness:
  "ScheduledAt (heap (run [EvSchedule 0 5] (NewSchedulerService SlackNotificationService heap_dup)) 1) = Some 20 \<and>
   jobs (run [EvSchedule 0 5] (NewSchedulerService SlackNotificationService heap_dup)) ''dup'' = Some 1 \<and>
   entries (cron (run [EvSchedule 0 5] (NewSchedulerService SlackNotificationService heap_dup))) = [(1, 0)] \<and>
   fst (ScheduleNotification 1 6 (run [EvSchedule 0 5] (NewSchedulerService SlackNotificationService heap_dup))) = None \<and>
   jobs (snd (ScheduleNotification 1 6 (run [EvSchedule 0 5] (NewSchedulerService SlackNotificationService heap_dup)))) ''dup'' = Some 2 \<and>
   entries (cron (snd (ScheduleNotification 1 6 (run [EvSchedule 0 5] (NewSchedulerService SlackNotificationService heap_dup))))) =
     [(1, 0), (2, 1)] \<and>
   entries (cron (job 0 10 (snd (ScheduleNotification 1 6 (run [EvSchedule 0 5] (NewSchedulerService SlackNotificationService heap_dup)))))) =
     [(1, 0)] \<and>
   jobs (job 0 10 (snd (ScheduleNotification 1 6 (run [EvSchedule 0 5] (NewSchedulerService SlackNotificationService heap_dup))))) ''dup'' = None"
proof -
  let ?s = "run [EvSchedule 0 5] (NewSchedulerService SlackNotificationService heap_dup)"
  have h1: "ScheduledAt (heap ?s 1) = Some 20"
    unfolding dup_state1 by (simp add: heap_dup_def mk_notification_def)
  have h2: "(6::int) < 20" by simp
  have h3: "jobs ?s (ID (heap ?s 1)) = Some 1"
    unfolding dup_state1 by (simp add: heap_dup_def mk_notification_def)
  have h4: "\<forall>k. jobs ?s k = Some 1 \<longrightarrow> k = ID (heap ?s 1)"
    unfolding dup_state1 by (simp add: heap_dup_def mk_notification_def)
  have h5: "(1, 0) \<in> set (entries (cron ?s))"
    unfolding dup_state1 by simp
  have h6: "ID (heap ?s 0) = ID (heap ?s 1)"
    unfolding dup_state1 by (simp add: heap_dup_def mk_notification_def)
  have h7: "1 \<le> nextID (cron ?s)"
    unfolding dup_state1 by simp
  from C10_duplicate_id_overwrites [OF h1 h2 h3 h4 h5 h6 h7, of 10] h1 show ?thesis
    unfolding dup_state1 by (simp add: heap_dup_def mk_notification_def Remove_def)
qed

text \<open>
  C1 at a reused id. Two notifications with the id ``dup'', due at 10 and at 20, are both
  admitted on a started scheduler. Over the wakes at 10, 11, 20 and 21 the first is sent four
  times and the second not at all; the first one's entry is still in the cron at the end.
  (Without reuse of an id, and with sends that return before the next wake, each admission
  gives exactly one send: \<open>exactly_once_fresh_ids\<close>.)
\<close>

theorem C1_duplicate_id_run:
  "fst (ScheduleNotification 0 5 (run [EvStart] (NewSchedulerService SlackNotificationService heap_dup))) = None \<and>
   fst (ScheduleNotification 1 6 (run [EvStart, EvSchedule 0 5] (NewSchedulerService SlackNotificationService heap_dup))) = None \<and>
   ScheduledAt (heap_dup 0) = Some 10 \<and> ScheduledAt (heap_dup 1) = Some 20 \<and>
   sendLog (run [EvStart, EvSchedule 0 5, EvSchedule 1 6, EvWake 10, EvWake 11, EvWake 20, EvWake 21]
      (NewSchedulerService SlackNotificationService heap_dup)) =
     [(10, SlackNotificationService, 0), (11, SlackNotificationService, 0),
      (20, SlackNotificationService, 0), (21, SlackNotificationService, 0)] \<and>
   entries (cron (run [EvStart, EvSchedule 0 5, EvSchedule 1 6, EvWake 10, EvWake 11, EvWake 20, EvWake 21]
      (NewSchedulerService SlackNotificationService heap_dup))) = [(1, 0)]"
proof -
  have a: "fst (ScheduleNotification 0 5 (run [EvStart] (NewSchedulerService SlackNotificationService heap_dup))) = None"
    by (simp add: eval_defs heap_dup_def)
  have b: "fst (ScheduleNotification 1 6 (run [EvStart, EvSchedule 0 5] (NewSchedulerService SlackNotificationService heap_dup))) = None"
    by (simp add: eval_defs heap_dup_def)
  have c: "ScheduledAt (heap_dup 0) = Some 10 \<and> ScheduledAt (heap_dup 1) = Some 20"
    by (simp add: heap_dup_def mk_notification_def)
  have d: "sendLog (run [EvStart, EvSchedule 0 5, EvSchedule 1 6, EvWake 10, EvWake 11, EvWake 20, EvWake 21]
      (NewSchedulerService SlackNotificationService heap_dup)) =
     [(10, SlackNotificationService, 0), (11, SlackNotificationService, 0),
      (20, SlackNotificationService, 0), (21, SlackNotificationService, 0)]"
    by (simp add: eval_defs heap_dup_def)
  have e: "entries (cron (run [EvStart, EvSchedule 0 5, EvSchedule 1 6, EvWake 10, EvWake 11, EvWake 20, EvWake 21]
      (NewSchedulerService SlackNotificationService heap_dup))) = [(1, 0)]"
    by (simp add: eval_defs heap_dup_def)
  from a b c d e show ?thesis by blast
qed

end
